theory Spec2Isabelle
  imports Complex_Main "HOL-Library.Log_Nat"
begin

section \<open>The carousel of \<open>assets/js/main.js\<close>\<close>

text \<open>
  \<open>CarouselManager\<close> keeps a \<open>Map\<close> from a carousel id to a data object
  \<open>{element, prevBtn, nextBtn, currentIndex, itemsPerView}\<close>. The model keeps of the three
  DOM references what the methods read and write: the number of \<open>.carousel-item\<close>
  descendants of \<open>element\<close> (\<open>items.length\<close>, a natural number) and the \<open>disabled\<close>
  flag of each button. \<open>currentIndex\<close> and \<open>itemsPerView\<close> are JavaScript numbers that
  only ever hold integers; they are modelled as \<open>int\<close>, so that \<open>items.length -
  itemsPerView\<close> can be negative as it is in the source. The offset written to
  \<open>element.style.transform\<close> is computed in double-precision floating point; it is
  not a field of the record but the function \<open>translateX\<close> below.
\<close>

record carouselData =
  items :: nat
  prevBtn_disabled :: bool
  nextBtn_disabled :: bool
  currentIndex :: int
  itemsPerView :: int

type_synonym carousels = "string \<rightharpoonup> carouselData"

text \<open>\<open>getItemsPerView\<close> reads \<open>window.innerWidth\<close>; the model takes it as argument.\<close>

definition getItemsPerView :: "int \<Rightarrow> int" where
  "getItemsPerView innerWidth =
     (if innerWidth < 768 then 1
      else if innerWidth < 1024 then 2
      else 3)"

definition updateCarousel :: "carousels \<Rightarrow> string \<Rightarrow> carousels" where
  "updateCarousel cs carouselId =
     (case cs carouselId of
        None \<Rightarrow> cs
      | Some data \<Rightarrow>
          (let maxIndex = max 0 (int (items data) - itemsPerView data)
           in cs(carouselId \<mapsto>
                data\<lparr>prevBtn_disabled := (currentIndex data \<le> 0),
                     nextBtn_disabled := (currentIndex data \<ge> maxIndex)\<rparr>)))"

definition movePrev :: "carousels \<Rightarrow> string \<Rightarrow> carousels" where
  "movePrev cs carouselId =
     (case cs carouselId of
        None \<Rightarrow> cs
      | Some data \<Rightarrow>
          if currentIndex data > 0
          then updateCarousel
                 (cs(carouselId \<mapsto> data\<lparr>currentIndex := currentIndex data - 1\<rparr>))
                 carouselId
          else cs)"

definition moveNext :: "carousels \<Rightarrow> string \<Rightarrow> carousels" where
  "moveNext cs carouselId =
     (case cs carouselId of
        None \<Rightarrow> cs
      | Some data \<Rightarrow>
          (let maxIndex = max 0 (int (items data) - itemsPerView data)
           in if currentIndex data < maxIndex
              then updateCarousel
                     (cs(carouselId \<mapsto> data\<lparr>currentIndex := currentIndex data + 1\<rparr>))
                     carouselId
              else cs))"

text \<open>\<open>handleResize\<close> takes the new \<open>window.innerWidth\<close> as argument.\<close>

definition handleResize :: "carousels \<Rightarrow> int \<Rightarrow> string \<Rightarrow> carousels" where
  "handleResize cs innerWidth carouselId =
     (case cs carouselId of
        None \<Rightarrow> cs
      | Some data \<Rightarrow>
          (let newItemsPerView = getItemsPerView innerWidth
           in if newItemsPerView \<noteq> itemsPerView data
              then updateCarousel
                     (cs(carouselId \<mapsto>
                        data\<lparr>itemsPerView := newItemsPerView, currentIndex := 0\<rparr>))
                     carouselId
              else cs))"

text \<open>
  A navigation event is a click on the next or on the previous button of some carousel;
  a sequence of events is run from left to right.
\<close>

datatype navigation = Advance string | Retreat string

fun navigate :: "carousels \<Rightarrow> navigation \<Rightarrow> carousels" where
  "navigate cs (Advance carouselId) = moveNext cs carouselId"
| "navigate cs (Retreat carouselId) = movePrev cs carouselId"

fun navigate_all :: "carousels \<Rightarrow> navigation list \<Rightarrow> carousels" where
  "navigate_all cs [] = cs"
| "navigate_all cs (ev # evs) = navigate_all (navigate cs ev) evs"

text \<open>The range of \<open>currentIndex\<close> that the specification's view window state requires.\<close>

definition in_range :: "carouselData \<Rightarrow> bool" where
  "in_range data \<longleftrightarrow>
     0 \<le> currentIndex data \<and>
     currentIndex data \<le> max 0 (int (items data) - itemsPerView data)"

text \<open>The state of the scenarios: seven items, three per view, at the first item.\<close>

definition seven_items :: carouselData where
  "seven_items =
     \<lparr>items = 7, prevBtn_disabled = True, nextBtn_disabled = False,
      currentIndex = 0, itemsPerView = 3\<rparr>"

definition career :: carousels where
  "career = [''careerCarousel'' \<mapsto> seven_items]"







section \<open>Loading the content of a language\<close>

text \<open>
  \<open>CVWebsite.loadContentData\<close> returns the content document of a language. A document
  is whatever \<open>window.siteData[language]\<close> holds or \<open>response.json()\<close> yields: a
  JavaScript value. The function only passes it on and tests whether it is truthy, so
  the model keeps the shape of JSON values; numbers are integers here, which is enough
  to tell zero from the rest.
\<close>

datatype jsdata =
    JNull
  | JBoolean bool
  | JNumber int
  | JString string
  | JArray "jsdata list"
  | JObject "(string \<times> jsdata) list"

fun truthy :: "jsdata \<Rightarrow> bool" where
  "truthy JNull = False"
| "truthy (JBoolean b) = b"
| "truthy (JNumber n) = (n \<noteq> 0)"
| "truthy (JString s) = (s \<noteq> [])"
| "truthy (JArray xs) = True"
| "truthy (JObject members) = True"

text \<open>
  What the function reads from the page: \<open>window.siteData\<close> (absent, or a table from
  language codes to values), the \<open>content\<close> of the \<open>base-url\<close> meta element (absent
  when there is no such element), and the network. \<open>fetch\<close> gives for a URL either no
  response (the promise rejects: no connection, blocked request) or a response with its
  \<open>ok\<close> flag and the outcome of \<open>response.json()\<close>, which is \<open>None\<close> when the body
  does not parse.
\<close>

datatype response = Response (ok: bool) (json: "jsdata option")

record window =
  siteData :: "(string \<rightharpoonup> jsdata) option"
  base_url :: "string option"
  fetch :: "string \<Rightarrow> response option"

text \<open>
  The three ways the promise returned by \<open>loadContentData\<close> rejects: with the error of
  a rejected \<open>fetch\<close>, with the error of a rejected \<open>response.json()\<close>, and with the
  \<open>Error\<close> that the function throws itself for the language it names.
\<close>

datatype error = FetchRejected | JsonRejected | NoDataAvailable string

text \<open>
  What a call does besides returning: its console output, in order, and the request it
  sends. \<open>LogError\<close> is the \<open>console.error\<close> of the \<open>catch\<close> block.
\<close>

datatype effect =
    LogUsingCached string
  | LogLoading string
  | LogUsingEmbedded string
  | LogNoEmbedded string
  | Fetch string
  | LogLoaded string
  | WarnFallingBack string
  | LogError string error

type_synonym contentCache = "string \<rightharpoonup> jsdata"

text \<open>A property read that is used as a condition: the value when it is truthy.\<close>

definition truthy_value :: "jsdata option \<Rightarrow> jsdata option" where
  "truthy_value v =
     (case v of None \<Rightarrow> None | Some d \<Rightarrow> if truthy d then Some d else None)"

text \<open>\<open>window.siteData && window.siteData[language]\<close>\<close>

definition embedded :: "window \<Rightarrow> string \<Rightarrow> jsdata option" where
  "embedded w language =
     (case siteData w of None \<Rightarrow> None | Some table \<Rightarrow> truthy_value (table language))"

text \<open>\<open>document.querySelector('meta[name="base-url"]')?.content || ''\<close>\<close>

definition baseUrl :: "window \<Rightarrow> string" where
  "baseUrl w = (case base_url w of None \<Rightarrow> [] | Some content \<Rightarrow> content)"

text \<open>
  The function is \<open>async\<close>; the model runs one call from start to end against one
  \<open>window\<close> and returns the settled promise (\<open>Inl\<close> for a rejection), the cache
  afterwards and the effects. The fallback is \<open>return this.loadContentData('en')\<close>
  without \<open>await\<close>, so a rejection of the inner call does not pass through the outer
  \<open>catch\<close> and is logged once. The recursion ends because the inner call is for
  \<open>'en'\<close> and is made only for another language.
\<close>

function loadContentData ::
  "window \<Rightarrow> contentCache \<Rightarrow> string \<Rightarrow> (error + jsdata) \<times> contentCache \<times> effect list"
where
  "loadContentData w cache language =
     (let cacheKey = ''content-'' @ language in
      case truthy_value (cache cacheKey) of
        Some data \<Rightarrow> (Inr data, cache, [LogUsingCached language])
      | None \<Rightarrow>
          (case embedded w language of
             Some data \<Rightarrow>
               (Inr data, cache(cacheKey \<mapsto> data),
                [LogLoading language, LogUsingEmbedded language])
           | None \<Rightarrow>
               (let url = baseUrl w @ ''/assets/data/'' @ language @ ''.json'';
                    tried = [LogLoading language, LogNoEmbedded language, Fetch url]
                in case fetch w url of
                     None \<Rightarrow>
                       (Inl FetchRejected, cache,
                        tried @ [LogError language FetchRejected])
                   | Some response \<Rightarrow>
                       if ok response then
                         (case json response of
                            None \<Rightarrow>
                              (Inl JsonRejected, cache,
                               tried @ [LogLoaded language, LogError language JsonRejected])
                          | Some data \<Rightarrow>
                              (Inr data, cache(cacheKey \<mapsto> data),
                               tried @ [LogLoaded language]))
                       else if language \<noteq> ''en'' then
                         (case loadContentData w cache ''en'' of
                            (result, cache', effects) \<Rightarrow>
                              (result, cache', tried @ [WarnFallingBack language] @ effects))
                       else
                         (Inl (NoDataAvailable language), cache,
                          tried @ [LogError language (NoDataAvailable language)]))))"
  by pat_completeness auto
termination
  by (relation "measure (\<lambda>(w, cache, language). if language = ''en'' then 0 else 1)") auto

declare loadContentData.simps [simp del]

text \<open>
  Calls can overlap: the function suspends at \<open>await fetch(...)\<close> and at \<open>await
  response.json()\<close>, and other calls and completions run in between. An invocation in
  flight is suspended at one of the two places, for the language it was called with:
  \<open>AwaitFetch language url\<close> waits for the response to the request it sent,
  \<open>AwaitJson language response\<close> for the body of the response it got. An invocation
  that falls back ends by handing its promise to a new invocation for \<open>'en'\<close>.
\<close>

datatype pending = AwaitFetch string string | AwaitJson string response

fun loading :: "pending \<Rightarrow> string" where
  "loading (AwaitFetch language url) = language"
| "loading (AwaitJson language response) = language"

datatype progress = Returned "error + jsdata" | Awaiting pending

text \<open>
  \<open>start\<close> is the part of an invocation that runs at once, up to the first \<open>await\<close>.
  \<open>resume\<close> is the part that runs when the awaited promise has settled, up to the
  next \<open>await\<close> or to the end: the page at that moment decides how the request has
  settled. Both give what the invocation has come to, the cache afterwards and the
  effects of this part.
\<close>

definition start ::
  "window \<Rightarrow> contentCache \<Rightarrow> string \<Rightarrow> progress \<times> contentCache \<times> effect list"
where
  "start w cache language =
     (let cacheKey = ''content-'' @ language in
      case truthy_value (cache cacheKey) of
        Some data \<Rightarrow> (Returned (Inr data), cache, [LogUsingCached language])
      | None \<Rightarrow>
          (case embedded w language of
             Some data \<Rightarrow>
               (Returned (Inr data), cache(cacheKey \<mapsto> data),
                [LogLoading language, LogUsingEmbedded language])
           | None \<Rightarrow>
               (let url = baseUrl w @ ''/assets/data/'' @ language @ ''.json''
                in (Awaiting (AwaitFetch language url), cache,
                    [LogLoading language, LogNoEmbedded language, Fetch url]))))"

fun resume ::
  "window \<Rightarrow> contentCache \<Rightarrow> pending \<Rightarrow> progress \<times> contentCache \<times> effect list"
where
  "resume w cache (AwaitFetch language url) =
     (case fetch w url of
        None \<Rightarrow> (Returned (Inl FetchRejected), cache, [LogError language FetchRejected])
      | Some response \<Rightarrow>
          if ok response then
            (Awaiting (AwaitJson language response), cache, [LogLoaded language])
          else if language \<noteq> ''en'' then
            (case start w cache ''en'' of
               (result, cache', effects) \<Rightarrow>
                 (result, cache', WarnFallingBack language # effects))
          else
            (Returned (Inl (NoDataAvailable language)), cache,
             [LogError language (NoDataAvailable language)]))"
| "resume w cache (AwaitJson language response) =
     (case json response of
        None \<Rightarrow> (Returned (Inl JsonRejected), cache, [LogError language JsonRejected])
      | Some data \<Rightarrow>
          (Returned (Inr data), cache((''content-'' @ language) \<mapsto> data), []))"

text \<open>
  A call that nothing interrupts: every part follows the one before on the same page.
  Three resumptions are the most a call needs (the response for the language, the
  response for \<open>'en'\<close>, its body).
\<close>

fun uninterrupted ::
  "nat \<Rightarrow> window \<Rightarrow> progress \<times> contentCache \<times> effect list \<Rightarrow>
   progress \<times> contentCache \<times> effect list"
where
  "uninterrupted 0 w run = run"
| "uninterrupted (Suc n) w (Returned result, cache, effects) =
     (Returned result, cache, effects)"
| "uninterrupted (Suc n) w (Awaiting p, cache, effects) =
     (case resume w cache p of
        (progress, cache', effects') \<Rightarrow>
          uninterrupted n w (progress, cache', effects @ effects'))"

text \<open>
  The \<open>CVWebsite\<close> object over time: its \<open>contentCache\<close>, the invocations in flight,
  the console and network output so far, and what the settled calls have returned, in
  the order in which they settled. An event is a call of \<open>loadContentData\<close> or the
  settling of the promise that the \<open>i\<close>-th invocation in flight waits for; the event
  carries the page as it is at that moment.
\<close>

record cvWebsite =
  cached :: contentCache
  in_flight :: "pending list"
  console :: "effect list"
  settled :: "(error + jsdata) list"

datatype event = Call window string | Settle window nat

fun step :: "cvWebsite \<Rightarrow> event \<Rightarrow> cvWebsite" where
  "step s (Call w language) =
     (case start w (cached s) language of
        (Returned result, cache', effects) \<Rightarrow>
          s\<lparr>cached := cache', console := console s @ effects,
            settled := settled s @ [result]\<rparr>
      | (Awaiting p, cache', effects) \<Rightarrow>
          s\<lparr>cached := cache', console := console s @ effects,
            in_flight := in_flight s @ [p]\<rparr>)"
| "step s (Settle w i) =
     (if i < length (in_flight s) then
        (case resume w (cached s) (in_flight s ! i) of
           (Returned result, cache', effects) \<Rightarrow>
             s\<lparr>cached := cache', console := console s @ effects,
               settled := settled s @ [result],
               in_flight := take i (in_flight s) @ drop (Suc i) (in_flight s)\<rparr>
         | (Awaiting p, cache', effects) \<Rightarrow>
             s\<lparr>cached := cache', console := console s @ effects,
               in_flight := (in_flight s)[i := p]\<rparr>)
      else s)"

fun run :: "cvWebsite \<Rightarrow> event list \<Rightarrow> cvWebsite" where
  "run s [] = s"
| "run s (ev # evs) = run (step s ev) evs"

text \<open>
  The pages of the scenarios. All embed the same English document only. On \<open>offline\<close>
  every request is rejected; on \<open>not_found\<close> every request is answered with a response
  that is not \<open>ok\<close>; on \<open>served\<close>, which embeds nothing and has the base URL \<open>/cv\<close>,
  the French file exists.
\<close>

definition english :: jsdata where
  "english = JObject [(''slogan'', JString ''Carpe diem'')]"

definition offline :: window where
  "offline =
     \<lparr>siteData = Some [''en'' \<mapsto> english], base_url = None, fetch = (\<lambda>url. None)\<rparr>"

definition not_found :: window where
  "not_found =
     \<lparr>siteData = Some [''en'' \<mapsto> english], base_url = None,
      fetch = (\<lambda>url. Some (Response False None))\<rparr>"

definition french :: jsdata where
  "french = JObject [(''slogan'', JString ''Cueille le jour'')]"

definition served :: window where
  "served =
     \<lparr>siteData = None, base_url = Some ''/cv'',
      fetch = (\<lambda>url. if url = ''/cv/assets/data/fr.json''
                      then Some (Response True (Some french))
                      else Some (Response False None))\<rparr>"

text \<open>
  On \<open>served_later\<close> the French file has been replaced. \<open>fresh\<close> is the object after
  its construction; in \<open>waiting_for_es\<close> the French document is cached and a call for
  \<open>"es"\<close> waits for its response.
\<close>

definition french_revised :: jsdata where
  "french_revised = JObject [(''slogan'', JString ''Profite du jour'')]"

definition served_later :: window where
  "served_later =
     \<lparr>siteData = None, base_url = Some ''/cv'',
      fetch = (\<lambda>url. if url = ''/cv/assets/data/fr.json''
                      then Some (Response True (Some french_revised))
                      else Some (Response False None))\<rparr>"

definition fresh :: cvWebsite where
  "fresh = \<lparr>cached = Map.empty, in_flight = [], console = [], settled = []\<rparr>"

definition waiting_for_es :: cvWebsite where
  "waiting_for_es =
     \<lparr>cached = [''content-fr'' \<mapsto> french],
      in_flight = [AwaitFetch ''es'' ''/assets/data/es.json''],
      console = [], settled = []\<rparr>"

section \<open>The default language\<close>

text \<open>
  \<open>String.prototype.split\<close> with a separator of one character: the pieces between the
  separators, at least one piece.
\<close>

fun js_split :: "char \<Rightarrow> string \<Rightarrow> string list" where
  "js_split sep [] = [[]]"
| "js_split sep (c # cs) =
     (if c = sep then [] # js_split sep cs
      else (case js_split sep cs of
              [] \<Rightarrow> [[c]]
            | piece # pieces \<Rightarrow> (c # piece) # pieces))"

text \<open>Reading an array at an index: \<open>undefined\<close> (here \<open>None\<close>) beyond its end.\<close>

definition at_index :: "'a list \<Rightarrow> nat \<Rightarrow> 'a option" where
  "at_index xs i = (if i < length xs then Some (xs ! i) else None)"

text \<open>\<open>['en', 'de', 'fr'].includes(v)\<close>: the value when the test succeeds.\<close>

definition included :: "string option \<Rightarrow> string option" where
  "included v =
     (case v of
        None \<Rightarrow> None
      | Some s \<Rightarrow> if s \<in> set [''en'', ''de'', ''fr''] then Some s else None)"

text \<open>
  \<open>getDefaultLanguage\<close> reads \<open>window.location.pathname\<close>, the item \<open>cv-language\<close>
  of \<open>localStorage\<close> (\<open>null\<close> when nothing is stored) and \<open>navigator.language\<close>; the
  model takes the three as arguments.
\<close>

definition getDefaultLanguage :: "string \<Rightarrow> string option \<Rightarrow> string \<Rightarrow> string" where
  "getDefaultLanguage pathname stored_item navigator_language =
     (case included (at_index (js_split CHR ''/'' pathname) 1) of
        Some pathLang \<Rightarrow> pathLang
      | None \<Rightarrow>
          (case included (case stored_item of
                            None \<Rightarrow> None
                          | Some stored \<Rightarrow> if stored \<noteq> [] then Some stored else None) of
             Some stored \<Rightarrow> stored
           | None \<Rightarrow>
               (case included (at_index (js_split CHR ''-'' navigator_language) 0) of
                  Some browserLang \<Rightarrow> browserLang
                | None \<Rightarrow> ''en'')))"

text \<open>
  The precedence stated in words, to compare with the code. The first path segment is the text between the
  first slash of the path and the next one (or the end); the primary subtag of a
  language tag is the text before its first hyphen.
\<close>

definition supported :: "string set" where
  "supported = {''en'', ''de'', ''fr''}"

definition first_path_segment :: "string \<Rightarrow> string" where
  "first_path_segment pathname =
     takeWhile (\<lambda>c. c \<noteq> CHR ''/'') (drop 1 (dropWhile (\<lambda>c. c \<noteq> CHR ''/'') pathname))"

definition primary_subtag :: "string \<Rightarrow> string" where
  "primary_subtag tag = takeWhile (\<lambda>c. c \<noteq> CHR ''-'') tag"

definition language_by_precedence :: "string \<Rightarrow> string option \<Rightarrow> string \<Rightarrow> string" where
  "language_by_precedence pathname stored_item navigator_language =
     (if first_path_segment pathname \<in> supported then first_path_segment pathname
      else if stored_item \<in> Some ` supported then the stored_item
      else if primary_subtag navigator_language \<in> supported
        then primary_subtag navigator_language
      else ''en'')"

section \<open>Properties of the carousel\<close>

subsection \<open>One step of navigation\<close>

lemma updateCarousel_Some:
  "cs cid = Some data \<Longrightarrow>
   updateCarousel cs cid cid =
     Some (data\<lparr>prevBtn_disabled := (currentIndex data \<le> 0),
               nextBtn_disabled :=
                 (currentIndex data \<ge> max 0 (int (items data) - itemsPerView data))\<rparr>)"
  by (simp add: updateCarousel_def)

lemma updateCarousel_other:
  "other \<noteq> cid \<Longrightarrow> updateCarousel cs cid other = cs other"
  by (simp add: updateCarousel_def split: option.splits)

lemma moveNext_other: "other \<noteq> cid \<Longrightarrow> moveNext cs cid other = cs other"
  by (simp add: moveNext_def updateCarousel_other Let_def split: option.splits)

lemma movePrev_other: "other \<noteq> cid \<Longrightarrow> movePrev cs cid other = cs other"
  by (simp add: movePrev_def updateCarousel_other split: option.splits)

lemma moveNext_in_range:
  assumes "cs cid = Some data" and "in_range data"
  shows "\<exists>data'. moveNext cs cid cid = Some data' \<and> items data' = items data \<and>
           itemsPerView data' = itemsPerView data \<and> in_range data'"
  using assms by (auto simp: moveNext_def updateCarousel_def in_range_def Let_def)

lemma movePrev_in_range:
  assumes "cs cid = Some data" and "in_range data"
  shows "\<exists>data'. movePrev cs cid cid = Some data' \<and> items data' = items data \<and>
           itemsPerView data' = itemsPerView data \<and> in_range data'"
  using assms by (auto simp: movePrev_def updateCarousel_def in_range_def Let_def)

lemma navigate_in_range:
  assumes "cs cid = Some data" and "in_range data"
  shows "\<exists>data'. navigate cs ev cid = Some data' \<and> items data' = items data \<and>
           itemsPerView data' = itemsPerView data \<and> in_range data'"
proof (cases ev)
  case (Advance other)
  show ?thesis
  proof (cases "other = cid")
    case True
    with Advance moveNext_in_range [of cs cid data] assms show ?thesis by simp
  next
    case False
    with Advance assms show ?thesis by (simp add: moveNext_other)
  qed
next
  case (Retreat other)
  show ?thesis
  proof (cases "other = cid")
    case True
    with Retreat movePrev_in_range [of cs cid data] assms show ?thesis by simp
  next
    case False
    with Retreat assms show ?thesis by (simp add: movePrev_other)
  qed
qed

lemma career_run:
  "navigate_all career (replicate 4 (Advance ''careerCarousel'')) ''careerCarousel'' =
     Some (seven_items\<lparr>prevBtn_disabled := False, nextBtn_disabled := True,
                       currentIndex := 4\<rparr>)"
  by (simp add: career_def seven_items_def numeral_eq_Suc moveNext_def updateCarousel_def)

subsection \<open>Navigation, resize and button states\<close>

text \<open>
  C1. For every item count and every items-per-view value, a carousel whose
  \<open>currentIndex\<close> lies in \<open>[0, max(0, itemCount - itemsPerView)]\<close> still has its
  \<open>currentIndex\<close> in that range after any finite sequence of \<open>moveNext\<close> and
  \<open>movePrev\<close> calls (on this or on any other carousel); the item count and
  \<open>itemsPerView\<close> are not changed by navigation.
\<close>

theorem navigation_keeps_currentIndex_in_range:
  assumes "cs cid = Some data" and "in_range data"
  shows "\<exists>data'. navigate_all cs evs cid = Some data' \<and> items data' = items data \<and>
           itemsPerView data' = itemsPerView data \<and>
           0 \<le> currentIndex data' \<and>
           currentIndex data' \<le> max 0 (int (items data') - itemsPerView data')"
  using assms
proof (induction evs arbitrary: cs data)
  case Nil
  then show ?case by (simp add: in_range_def)
next
  case (Cons ev evs)
  from navigate_in_range [of cs cid data ev] Cons.prems
  obtain mid where mid: "navigate cs ev cid = Some mid" "items mid = items data"
    "itemsPerView mid = itemsPerView data" "in_range mid"
    by blast
  from Cons.IH [of "navigate cs ev" mid] mid show ?case by simp
qed

theorem navigation_keeps_currentIndex_in_range_witness:
  "career ''careerCarousel'' = Some seven_items \<and> in_range seven_items \<and>
   (\<exists>data'. navigate_all career
              [Advance ''careerCarousel'', Retreat ''careerCarousel'',
               Retreat ''careerCarousel'', Advance ''careerCarousel'']
              ''careerCarousel'' = Some data' \<and>
            items data' = 7 \<and> itemsPerView data' = 3 \<and>
            0 \<le> currentIndex data' \<and> currentIndex data' \<le> 4)"
proof -
  have a: "career ''careerCarousel'' = Some seven_items"
    by (simp add: career_def)
  have b: "in_range seven_items"
    by (simp add: in_range_def seven_items_def)
  from navigation_keeps_currentIndex_in_range [of career "''careerCarousel''" seven_items
      "[Advance ''careerCarousel'', Retreat ''careerCarousel'',
        Retreat ''careerCarousel'', Advance ''careerCarousel'']"] a b
  obtain data' where "navigate_all career
              [Advance ''careerCarousel'', Retreat ''careerCarousel'',
               Retreat ''careerCarousel'', Advance ''careerCarousel'']
              ''careerCarousel'' = Some data'" "items data' = items seven_items"
     "itemsPerView data' = itemsPerView seven_items" "0 \<le> currentIndex data'"
     "currentIndex data' \<le> max 0 (int (items data') - itemsPerView data')"
    by blast
  then have "navigate_all career
              [Advance ''careerCarousel'', Retreat ''careerCarousel'',
               Retreat ''careerCarousel'', Advance ''careerCarousel'']
              ''careerCarousel'' = Some data' \<and>
            items data' = 7 \<and> itemsPerView data' = 3 \<and>
            0 \<le> currentIndex data' \<and> currentIndex data' \<le> 4"
    by (simp add: seven_items_def)
  with a b show ?thesis by blast
qed


lemma moveNext_at_maxIndex:
  assumes "cs cid = Some data"
    and "\<not> currentIndex data < max 0 (int (items data) - itemsPerView data)"
  shows "moveNext cs cid = cs"
  using assms by (simp add: moveNext_def)

lemma moveNext_below_maxIndex:
  assumes "cs cid = Some data"
    and "currentIndex data < max 0 (int (items data) - itemsPerView data)"
  shows "moveNext cs cid cid =
           Some (data\<lparr>currentIndex := currentIndex data + 1,
                     prevBtn_disabled := (currentIndex data + 1 \<le> 0),
                     nextBtn_disabled :=
                       (currentIndex data + 1
                          \<ge> max 0 (int (items data) - itemsPerView data))\<rparr>)"
  using assms by (simp add: moveNext_def updateCarousel_def)

text \<open>
  C3. In a state with \<open>currentIndex \<ge> 0\<close> (the specification's view window state;
  every state that navigation reaches from index 0 is one), \<open>moveNext\<close> adds exactly 1 to
  \<open>currentIndex\<close> when \<open>currentIndex < itemCount - itemsPerView\<close> and leaves the item
  count and \<open>itemsPerView\<close> alone; otherwise it changes nothing at all, in particular at
  \<open>currentIndex = itemCount - itemsPerView\<close>.
\<close>

theorem moveNext_increments_or_noop:
  assumes "cs cid = Some data" and "0 \<le> currentIndex data"
  shows "(currentIndex data < int (items data) - itemsPerView data \<longrightarrow>
            (\<exists>data'. moveNext cs cid cid = Some data' \<and>
               currentIndex data' = currentIndex data + 1 \<and>
               items data' = items data \<and> itemsPerView data' = itemsPerView data)) \<and>
         (\<not> currentIndex data < int (items data) - itemsPerView data \<longrightarrow>
            moveNext cs cid = cs) \<and>
         (currentIndex data = int (items data) - itemsPerView data \<longrightarrow>
            moveNext cs cid = cs)"
proof (cases "currentIndex data < int (items data) - itemsPerView data")
  case True
  then have "currentIndex data < max 0 (int (items data) - itemsPerView data)"
    by simp
  from moveNext_below_maxIndex [of cs cid data] assms(1) this True
  show ?thesis by simp
next
  case False
  with assms(2) have "\<not> currentIndex data < max 0 (int (items data) - itemsPerView data)"
    by simp
  from moveNext_at_maxIndex [of cs cid data] assms(1) this False
  show ?thesis by simp
qed

theorem moveNext_increments_or_noop_witness:
  "career ''careerCarousel'' = Some seven_items \<and> 0 \<le> currentIndex seven_items \<and>
   currentIndex seven_items < int (items seven_items) - itemsPerView seven_items \<and>
   (\<exists>data'. moveNext career ''careerCarousel'' ''careerCarousel'' = Some data' \<and>
      currentIndex data' = 1 \<and> items data' = 7 \<and> itemsPerView data' = 3)"
proof -
  have a: "career ''careerCarousel'' = Some seven_items"
    by (simp add: career_def)
  have b: "0 \<le> currentIndex seven_items"
    by (simp add: seven_items_def)
  have c: "currentIndex seven_items < int (items seven_items) - itemsPerView seven_items"
    by (simp add: seven_items_def)
  from moveNext_increments_or_noop [of career "''careerCarousel''" seven_items] a b c
  have "\<exists>data'. moveNext career ''careerCarousel'' ''careerCarousel'' = Some data' \<and>
      currentIndex data' = currentIndex seven_items + 1 \<and>
      items data' = items seven_items \<and> itemsPerView data' = itemsPerView seven_items"
    by blast
  then have "\<exists>data'. moveNext career ''careerCarousel'' ''careerCarousel'' = Some data' \<and>
      currentIndex data' = 1 \<and> items data' = 7 \<and> itemsPerView data' = 3"
    by (simp add: seven_items_def)
  with a b c show ?thesis by blast
qed

text \<open>
  C4. In every state \<open>movePrev\<close> subtracts exactly 1 from \<open>currentIndex\<close> when
  \<open>currentIndex > 0\<close>, leaving the item count and \<open>itemsPerView\<close> alone, and changes
  nothing at all otherwise, in particular at \<open>currentIndex = 0\<close>.
\<close>

theorem movePrev_decrements_or_noop:
  assumes "cs cid = Some data"
  shows "(currentIndex data > 0 \<longrightarrow>
            (\<exists>data'. movePrev cs cid cid = Some data' \<and>
               currentIndex data' = currentIndex data - 1 \<and>
               items data' = items data \<and> itemsPerView data' = itemsPerView data)) \<and>
         (\<not> currentIndex data > 0 \<longrightarrow> movePrev cs cid = cs) \<and>
         (currentIndex data = 0 \<longrightarrow> movePrev cs cid = cs)"
  using assms by (simp add: movePrev_def updateCarousel_def)

theorem movePrev_decrements_or_noop_witness:
  "career ''careerCarousel'' = Some seven_items \<and> currentIndex seven_items = 0 \<and>
   movePrev career ''careerCarousel'' = career"
proof -
  have a: "career ''careerCarousel'' = Some seven_items"
    by (simp add: career_def)
  have b: "currentIndex seven_items = 0"
    by (simp add: seven_items_def)
  from movePrev_decrements_or_noop [of career "''careerCarousel''" seven_items] a b
  have "movePrev career ''careerCarousel'' = career"
    by blast
  with a b show ?thesis by blast
qed

text \<open>
  C6. \<open>getItemsPerView\<close> is a function of the viewport width alone: it is 1 below 768,
  2 from 768 up to but not including 1024, and 3 from 1024 on.
\<close>

theorem getItemsPerView_breakpoints:
  "(w < 768 \<longrightarrow> getItemsPerView w = 1) \<and>
   (768 \<le> w \<and> w < 1024 \<longrightarrow> getItemsPerView w = 2) \<and>
   (1024 \<le> w \<longrightarrow> getItemsPerView w = 3)"
  by (simp add: getItemsPerView_def)

theorem getItemsPerView_breakpoints_witness:
  "(767::int) < 768 \<and> getItemsPerView 767 = 1 \<and>
   (768::int) \<le> 768 \<and> (768::int) < 1024 \<and> getItemsPerView 768 = 2 \<and>
   (1024::int) \<le> 1024 \<and> getItemsPerView 1024 = 3"
  using getItemsPerView_breakpoints [of 767] getItemsPerView_breakpoints [of 768]
    getItemsPerView_breakpoints [of 1024]
  by simp


text \<open>
  C5. \<open>handleResize\<close> recomputes \<open>itemsPerView\<close> from the new width. When the value
  differs from the stored one, the stored one is replaced and \<open>currentIndex\<close> becomes 0;
  when it does not differ, nothing changes. A carousel showing 3 items per view (width
  1200) at \<open>currentIndex = 4\<close> is at \<open>currentIndex = 0\<close> with 1 item per view after a
  resize to width 500.
\<close>

theorem handleResize_resets_on_change:
  assumes "cs cid = Some data"
  shows "(getItemsPerView w \<noteq> itemsPerView data \<longrightarrow>
            (\<exists>data'. handleResize cs w cid cid = Some data' \<and>
               itemsPerView data' = getItemsPerView w \<and> currentIndex data' = 0 \<and>
               items data' = items data)) \<and>
         (getItemsPerView w = itemsPerView data \<longrightarrow> handleResize cs w cid = cs) \<and>
         getItemsPerView 1200 = itemsPerView seven_items \<and>
         (\<exists>data'. handleResize [''careerCarousel'' \<mapsto> seven_items\<lparr>currentIndex := 4\<rparr>]
                     500 ''careerCarousel'' ''careerCarousel'' = Some data' \<and>
            itemsPerView data' = 1 \<and> currentIndex data' = 0)"
proof -
  have "getItemsPerView 1200 = itemsPerView seven_items"
    by (simp add: getItemsPerView_def seven_items_def)
  moreover have "\<exists>data'. handleResize [''careerCarousel'' \<mapsto> seven_items\<lparr>currentIndex := 4\<rparr>]
                     500 ''careerCarousel'' ''careerCarousel'' = Some data' \<and>
            itemsPerView data' = 1 \<and> currentIndex data' = 0"
    by (simp add: handleResize_def getItemsPerView_def seven_items_def updateCarousel_def)
  moreover from assms have "getItemsPerView w \<noteq> itemsPerView data \<longrightarrow>
            (\<exists>data'. handleResize cs w cid cid = Some data' \<and>
               itemsPerView data' = getItemsPerView w \<and> currentIndex data' = 0 \<and>
               items data' = items data)"
    by (simp add: handleResize_def updateCarousel_def Let_def)
  moreover from assms have "getItemsPerView w = itemsPerView data \<longrightarrow>
      handleResize cs w cid = cs"
    by (simp add: handleResize_def)
  ultimately show ?thesis by blast
qed

theorem handleResize_resets_on_change_witness:
  "career ''careerCarousel'' = Some seven_items \<and>
   getItemsPerView 800 \<noteq> itemsPerView seven_items \<and>
   getItemsPerView 1100 = itemsPerView seven_items \<and>
   (\<exists>data'. handleResize career 800 ''careerCarousel'' ''careerCarousel'' = Some data' \<and>
      itemsPerView data' = 2 \<and> currentIndex data' = 0 \<and> items data' = 7) \<and>
   handleResize career 1100 ''careerCarousel'' = career"
proof -
  have a: "career ''careerCarousel'' = Some seven_items"
    by (simp add: career_def)
  have b: "getItemsPerView 800 \<noteq> itemsPerView seven_items"
    by (simp add: getItemsPerView_def seven_items_def)
  have c: "getItemsPerView 1100 = itemsPerView seven_items"
    by (simp add: getItemsPerView_def seven_items_def)
  from handleResize_resets_on_change [of career "''careerCarousel''" seven_items 800] a b
  have "\<exists>data'. handleResize career 800 ''careerCarousel'' ''careerCarousel'' = Some data' \<and>
      itemsPerView data' = getItemsPerView 800 \<and> currentIndex data' = 0 \<and>
      items data' = items seven_items"
    by blast
  then have d: "\<exists>data'. handleResize career 800 ''careerCarousel'' ''careerCarousel'' =
        Some data' \<and>
      itemsPerView data' = 2 \<and> currentIndex data' = 0 \<and> items data' = 7"
    by (simp add: getItemsPerView_def seven_items_def)
  from handleResize_resets_on_change [of career "''careerCarousel''" seven_items 1100] a c
  have "handleResize career 1100 ''careerCarousel'' = career"
    by blast
  with a b c d show ?thesis by blast
qed

text \<open>
  C7. In a state with \<open>currentIndex \<ge> 0\<close>, \<open>updateCarousel\<close> leaves the previous button
  enabled exactly when \<open>currentIndex > 0\<close> and the next button enabled exactly when
  \<open>currentIndex < itemCount - itemsPerView\<close>. With seven items and three per view, four
  clicks on next lead from index 0 to index 4 with the next button disabled, and a fifth
  click changes nothing.
\<close>

theorem updateCarousel_button_states:
  assumes "cs cid = Some data" and "0 \<le> currentIndex data"
  shows "(\<exists>data'. updateCarousel cs cid cid = Some data' \<and>
            (\<not> prevBtn_disabled data') = (currentIndex data > 0) \<and>
            (\<not> nextBtn_disabled data') =
              (currentIndex data < int (items data) - itemsPerView data) \<and>
            currentIndex data' = currentIndex data \<and> items data' = items data \<and>
            itemsPerView data' = itemsPerView data) \<and>
         (\<exists>data4. navigate_all career (replicate 4 (Advance ''careerCarousel''))
                     ''careerCarousel'' = Some data4 \<and>
            currentIndex data4 = 4 \<and> nextBtn_disabled data4 \<and>
            \<not> prevBtn_disabled data4 \<and>
            moveNext (navigate_all career (replicate 4 (Advance ''careerCarousel'')))
              ''careerCarousel'' =
            navigate_all career (replicate 4 (Advance ''careerCarousel'')))"
proof -
  let ?run = "navigate_all career (replicate 4 (Advance ''careerCarousel''))"
  let ?data4 = "seven_items\<lparr>prevBtn_disabled := False, nextBtn_disabled := True,
                            currentIndex := 4\<rparr>"
  have "\<not> currentIndex ?data4 < max 0 (int (items ?data4) - itemsPerView ?data4)"
    by (simp add: seven_items_def)
  with moveNext_at_maxIndex [of ?run "''careerCarousel''" ?data4] career_run
  have "moveNext ?run ''careerCarousel'' = ?run"
    by blast
  with career_run have scenario: "\<exists>data4. ?run ''careerCarousel'' = Some data4 \<and>
      currentIndex data4 = 4 \<and> nextBtn_disabled data4 \<and> \<not> prevBtn_disabled data4 \<and>
      moveNext ?run ''careerCarousel'' = ?run"
    by simp
  from assms(2)
  have "(currentIndex data < max 0 (int (items data) - itemsPerView data)) =
        (currentIndex data < int (items data) - itemsPerView data)"
    by auto
  with updateCarousel_Some [of cs cid data] assms(1)
  have "\<exists>data'. updateCarousel cs cid cid = Some data' \<and>
            (\<not> prevBtn_disabled data') = (currentIndex data > 0) \<and>
            (\<not> nextBtn_disabled data') =
              (currentIndex data < int (items data) - itemsPerView data) \<and>
            currentIndex data' = currentIndex data \<and> items data' = items data \<and>
            itemsPerView data' = itemsPerView data"
    by (auto simp: not_le)
  with scenario show ?thesis by blast
qed

theorem updateCarousel_button_states_witness:
  "career ''careerCarousel'' = Some seven_items \<and> 0 \<le> currentIndex seven_items \<and>
   (\<exists>data'. updateCarousel career ''careerCarousel'' ''careerCarousel'' = Some data' \<and>
      prevBtn_disabled data' \<and> \<not> nextBtn_disabled data')"
proof -
  have a: "career ''careerCarousel'' = Some seven_items"
    by (simp add: career_def)
  have b: "0 \<le> currentIndex seven_items"
    by (simp add: seven_items_def)
  from updateCarousel_button_states [of career "''careerCarousel''" seven_items] a b
  have "\<exists>data'. updateCarousel career ''careerCarousel'' ''careerCarousel'' = Some data' \<and>
            (\<not> prevBtn_disabled data') = (currentIndex seven_items > 0) \<and>
            (\<not> nextBtn_disabled data') =
              (currentIndex seven_items < int (items seven_items) - itemsPerView seven_items)"
    by blast
  then have "\<exists>data'. updateCarousel career ''careerCarousel'' ''careerCarousel'' =
        Some data' \<and>
      prevBtn_disabled data' \<and> \<not> nextBtn_disabled data'"
    by (simp add: seven_items_def)
  with a b show ?thesis by blast
qed

subsection \<open>The offset\<close>














section \<open>Properties of content loading\<close>

lemma truthy_value_Some: "truthy_value v = Some d \<longleftrightarrow> v = Some d \<and> truthy d"
  by (auto simp: truthy_value_def split: option.splits)

lemma not_found_es:
  "loadContentData not_found Map.empty ''es'' =
     (Inr english, [''content-en'' \<mapsto> english],
      [LogLoading ''es'', LogNoEmbedded ''es'', Fetch ''/assets/data/es.json'',
       WarnFallingBack ''es'', LogLoading ''en'', LogUsingEmbedded ''en''])"
  by (simp add: loadContentData.simps not_found_def truthy_value_def embedded_def
      baseUrl_def english_def)

lemma served_fr:
  "loadContentData served Map.empty ''fr'' =
     (Inr french, [''content-fr'' \<mapsto> french],
      [LogLoading ''fr'', LogNoEmbedded ''fr'', Fetch ''/cv/assets/data/fr.json'',
       LogLoaded ''fr''])"
  by (simp add: loadContentData.simps served_def truthy_value_def embedded_def baseUrl_def)

text \<open>
  C2. The claim: a failed read of a language other than \<open>'en'\<close> is retried once with
  \<open>'en'\<close>, and when \<open>"es"\<close> has no document and \<open>"en"\<close> succeeds the caller gets the
  \<open>"en"\<close> document and no exception. The code on the page \<open>offline\<close>, where English
  is embedded and the request for \<open>es.json\<close> is rejected: the promise rejects with the
  error of \<open>fetch\<close>, nothing is tried for \<open>'en'\<close>, although a call for \<open>'en'\<close> on the
  same page returns the English document.
\<close>

theorem rejected_fetch_is_not_retried_with_en:
  "loadContentData offline Map.empty ''es'' =
     (Inl FetchRejected, Map.empty,
      [LogLoading ''es'', LogNoEmbedded ''es'', Fetch ''/assets/data/es.json'',
       LogError ''es'' FetchRejected]) \<and>
   fst (loadContentData offline Map.empty ''en'') = Inr english"
  by (simp add: loadContentData.simps offline_def truthy_value_def embedded_def
      baseUrl_def english_def)

text \<open>
  C9, as stated, fails: on the page \<open>not_found\<close> a first call for \<open>"es"\<close> returns the
  English document through the fallback, and a second call for \<open>"es"\<close>, started with
  the cache the first one left, is no cache hit for \<open>"es"\<close>: it requests \<open>es.json\<close>
  again before it finds the English document in the cache.
\<close>

theorem fallback_document_is_requested_again:
  "fst (loadContentData not_found Map.empty ''es'') = Inr english \<and>
   loadContentData not_found
       (fst (snd (loadContentData not_found Map.empty ''es''))) ''es'' =
     (Inr english, fst (snd (loadContentData not_found Map.empty ''es'')),
      [LogLoading ''es'', LogNoEmbedded ''es'', Fetch ''/assets/data/es.json'',
       WarnFallingBack ''es'', LogUsingCached ''en''])"
  unfolding not_found_es
  by (simp add: loadContentData.simps not_found_def truthy_value_def embedded_def
      baseUrl_def english_def)

subsection \<open>Calls that overlap\<close>

text \<open>
  \<open>loadContentData\<close> is the call that nothing interrupts: its parts, run one after the
  other on one page, give the same result, cache and effects.
\<close>

lemma loadContentData_en_uninterrupted:
  "uninterrupted 2 w (start w cache ''en'') =
     (case loadContentData w cache ''en'' of
        (result, cache', effects) \<Rightarrow> (Returned result, cache', effects))"
  by (subst loadContentData.simps)
    (simp add: start_def numeral_2_eq_2 Let_def split: option.splits)

lemma uninterrupted_Returned:
  "uninterrupted n w (Returned result, cache, effects) = (Returned result, cache, effects)"
  by (cases n) simp_all

lemma uninterrupted_effects:
  "uninterrupted n w (x, cache, es @ effects) =
     (case uninterrupted n w (x, cache, effects) of (x', cache', effects') \<Rightarrow> (x', cache', es @ effects'))"
proof (induction n arbitrary: x cache effects)
  case 0
  show ?case by simp
next
  case (Suc n)
  show ?case
  proof (cases x)
    case (Returned r)
    then show ?thesis by simp
  next
    case (Awaiting p)
    obtain x' c' e' where r: "resume w cache p = (x', c', e')"
      by (cases "resume w cache p")
    from Suc [of x' c' "effects @ e'"] Awaiting r show ?thesis
      by simp
  qed
qed


lemma embedded_truthy: "embedded w language = Some d \<Longrightarrow> truthy d"
  by (simp add: embedded_def truthy_value_Some split: option.splits)

lemma start_miss:
  assumes "truthy_value (cache (''content-'' @ language)) = None"
    and "embedded w language = None"
  shows "start w cache language =
           (Awaiting (AwaitFetch language (baseUrl w @ ''/assets/data/'' @ language @ ''.json'')),
            cache,
            [LogLoading language, LogNoEmbedded language,
             Fetch (baseUrl w @ ''/assets/data/'' @ language @ ''.json'')])"
  using assms by (simp add: start_def Let_def)

lemma start_hit:
  assumes "truthy_value (cache (''content-'' @ language)) = Some d"
  shows "start w cache language = (Returned (Inr d), cache, [LogUsingCached language])"
  using assms by (simp add: start_def)

lemma loadContentData_uninterrupted:
  "uninterrupted 3 w (start w cache language) =
     (case loadContentData w cache language of
        (result, cache', effects) \<Rightarrow> (Returned result, cache', effects))"
proof -
  let ?url = "baseUrl w @ ''/assets/data/'' @ language @ ''.json''"
  let ?tried = "[LogLoading language, LogNoEmbedded language, Fetch ?url]"
  have fallback: "uninterrupted 2 w
      (case start w cache ''en'' of (x, c, e) \<Rightarrow> (x, c, ?tried @ WarnFallingBack language # e)) =
    (case loadContentData w cache ''en'' of
       (r, c, e) \<Rightarrow> (Returned r, c, ?tried @ WarnFallingBack language # e))"
  proof -
    obtain x c e where s: "start w cache ''en'' = (x, c, e)"
      by (cases "start w cache ''en''")
    obtain r c' e' where l: "loadContentData w cache ''en'' = (r, c', e')"
      by (cases "loadContentData w cache ''en''")
    from loadContentData_en_uninterrupted [of w cache] s l
    have "uninterrupted 2 w (x, c, e) = (Returned r, c', e')"
      by simp
    with uninterrupted_effects [of 2 w x c "?tried @ [WarnFallingBack language]" e] s l
    show ?thesis by simp
  qed
  show ?thesis
  proof (cases "truthy_value (cache (''content-'' @ language)) = None \<and>
      embedded w language = None \<and>
      (\<exists>response. fetch w ?url = Some response \<and> \<not> ok response) \<and> language \<noteq> ''en''")
    case True
    then obtain response where r: "fetch w ?url = Some response" "\<not> ok response"
      by blast
    from True r have lhs: "uninterrupted 3 w (start w cache language) =
        uninterrupted 2 w
          (case start w cache ''en'' of
             (x, c, e) \<Rightarrow> (x, c, ?tried @ WarnFallingBack language # e))"
      by (simp add: start_miss numeral_3_eq_3 numeral_2_eq_2 split: prod.splits)
    from True r have rhs: "loadContentData w cache language =
        (case loadContentData w cache ''en'' of
           (result, cache', effects) \<Rightarrow>
             (result, cache', ?tried @ WarnFallingBack language # effects))"
      by (subst loadContentData.simps) simp
    show ?thesis
      unfolding lhs fallback rhs by (simp split: prod.splits)
  next
    case False
    then show ?thesis
      by (subst loadContentData.simps)
        (auto simp: start_def numeral_3_eq_3 Let_def uninterrupted_Returned
          split: option.splits)
  qed
qed

lemma start_outcome:
  assumes "start w cache language = (x, cache', effects)"
  shows "case x of
           Returned (Inr d) \<Rightarrow> truthy d \<and> cache' = cache((''content-'' @ language) \<mapsto> d)
         | Returned (Inl err) \<Rightarrow> False
         | Awaiting p \<Rightarrow> cache' = cache \<and> loading p = language"
proof (cases "truthy_value (cache (''content-'' @ language))")
  case (Some d)
  then have "cache((''content-'' @ language) \<mapsto> d) = cache" and "truthy d"
    by (simp_all add: truthy_value_Some fun_upd_idem)
  with start_hit [of cache language d w] Some assms show ?thesis
    by simp
next
  case None
  with assms show ?thesis
    by (cases "embedded w language") (auto simp: start_def Let_def embedded_truthy)
qed

lemma resume_outcome:
  assumes "resume w cache p = (x, cache', effects)"
  shows "case x of
           Returned (Inr d) \<Rightarrow>
             cache' = cache((if WarnFallingBack (loading p) \<in> set effects
                             then ''content-en'' else ''content-'' @ loading p) \<mapsto> d)
         | Returned (Inl err) \<Rightarrow> cache' = cache
         | Awaiting p' \<Rightarrow>
             cache' = cache \<and>
             loading p' = (if WarnFallingBack (loading p) \<in> set effects
                           then ''en'' else loading p)"
proof (cases p)
  case (AwaitJson language response)
  with assms show ?thesis
    by (auto split: option.splits)
next
  case (AwaitFetch language url)
  show ?thesis
  proof (cases "\<exists>response. fetch w url = Some response \<and> \<not> ok response \<and> language \<noteq> ''en''")
    case False
    with assms AwaitFetch show ?thesis
      by (auto split: option.splits if_splits)
  next
    case True
    obtain y c e where s: "start w cache ''en'' = (y, c, e)"
      by (cases "start w cache ''en''")
    with True assms AwaitFetch
    have eq: "x = y" "cache' = c" "effects = WarnFallingBack language # e"
      by auto
    from start_outcome [OF s] eq AwaitFetch show ?thesis
      by (auto split: progress.splits sum.splits)
  qed
qed


lemma loadContentData_en_writes:
  assumes "loadContentData w cache ''en'' = (Inr d, cache', effects)"
  shows "cache' = cache(''content-en'' \<mapsto> d) \<and> WarnFallingBack language \<notin> set effects"
proof (cases "truthy_value (cache ''content-en'')")
  case (Some data)
  then have "cache(''content-en'' \<mapsto> data) = cache"
    by (simp add: truthy_value_Some fun_upd_idem)
  with Some assms show ?thesis
    by (subst (asm) loadContentData.simps) auto
next
  case None
  with assms show ?thesis
    by (subst (asm) loadContentData.simps)
      (auto simp: Let_def split: option.splits if_splits)
qed

lemma loadContentData_writes:
  assumes "loadContentData w cache language = (Inr d, cache', effects)"
  shows "if WarnFallingBack language \<in> set effects
         then language \<noteq> ''en'' \<and> cache' = cache(''content-en'' \<mapsto> d) \<and>
              truthy_value (cache' (''content-'' @ language)) = None
         else cache' = cache((''content-'' @ language) \<mapsto> d)"
proof (cases "truthy_value (cache (''content-'' @ language))")
  case (Some data)
  then have "cache((''content-'' @ language) \<mapsto> data) = cache"
    by (simp add: truthy_value_Some fun_upd_idem)
  with Some assms show ?thesis
    by (subst (asm) loadContentData.simps) auto
next
  case None
  let ?url = "baseUrl w @ ''/assets/data/'' @ language @ ''.json''"
  show ?thesis
  proof (cases "embedded w language = None \<and>
      (\<exists>response. fetch w ?url = Some response \<and> \<not> ok response) \<and> language \<noteq> ''en''")
    case False
    with None assms show ?thesis
      by (subst (asm) loadContentData.simps)
        (auto simp: Let_def split: option.splits if_splits)
  next
    case True
    obtain r c e where en: "loadContentData w cache ''en'' = (r, c, e)"
      by (cases "loadContentData w cache ''en''")
    from True None assms en
    have eq: "r = Inr d" "c = cache'" "WarnFallingBack language \<in> set effects"
      by (subst (asm) loadContentData.simps, auto simp: Let_def)+
    from loadContentData_en_writes [of w cache d cache' e] en eq
    have "cache' = cache(''content-en'' \<mapsto> d)"
      by simp
    with True None eq show ?thesis
      by simp
  qed
qed

lemma start_keeps:
  assumes "truthy_value (cache (''content-'' @ L)) = Some d"
    and "start w cache language = (x, cache', effects)"
  shows "truthy_value (cache' (''content-'' @ L)) = Some d \<and>
         (\<forall>p. x = Awaiting p \<longrightarrow> loading p \<noteq> L)"
proof (cases "language = L")
  case True
  with start_hit [of cache L d w] assms show ?thesis
    by auto
next
  case False
  with start_outcome [OF assms(2)] assms(1) show ?thesis
    by (cases x) (auto split: sum.splits)
qed

lemma resume_keeps:
  assumes "truthy_value (cache (''content-'' @ L)) = Some d"
    and "loading p \<noteq> L"
    and "resume w cache p = (x, cache', effects)"
  shows "truthy_value (cache' (''content-'' @ L)) = Some d \<and>
         (\<forall>p'. x = Awaiting p' \<longrightarrow> loading p' \<noteq> L)"
proof (cases p)
  case (AwaitJson language response)
  with assms show ?thesis
    by (auto split: option.splits)
next
  case (AwaitFetch language url)
  show ?thesis
  proof (cases "\<exists>response. fetch w url = Some response \<and> \<not> ok response \<and> language \<noteq> ''en''")
    case False
    with assms AwaitFetch show ?thesis
      by (auto split: option.splits if_splits)
  next
    case True
    obtain y c e where s: "start w cache ''en'' = (y, c, e)"
      by (cases "start w cache ''en''")
    with True assms(3) AwaitFetch
    have eq: "x = y" "cache' = c"
      by auto
    from start_keeps [OF assms(1) s] eq show ?thesis
      by simp
  qed
qed

lemma step_keeps:
  assumes "truthy_value (cached s (''content-'' @ L)) = Some d"
    and "L \<notin> loading ` set (in_flight s)"
  shows "truthy_value (cached (step s ev) (''content-'' @ L)) = Some d \<and>
         L \<notin> loading ` set (in_flight (step s ev))"
proof (cases ev)
  case (Call w language)
  obtain x c e where st: "start w (cached s) language = (x, c, e)"
    by (cases "start w (cached s) language")
  from start_keeps [OF assms(1) st] assms(2) Call st show ?thesis
    by (cases x) auto
next
  case (Settle w i)
  show ?thesis
  proof (cases "i < length (in_flight s)")
    case False
    with assms Settle show ?thesis by simp
  next
    case True
    let ?p = "in_flight s ! i"
    from True assms(2) have p: "loading ?p \<noteq> L"
      by (metis image_eqI nth_mem)
    obtain x c e where r: "resume w (cached s) ?p = (x, c, e)"
      by (cases "resume w (cached s) ?p")
    from resume_keeps [OF assms(1) p r]
    have c: "truthy_value (c (''content-'' @ L)) = Some d"
      and x: "\<forall>p'. x = Awaiting p' \<longrightarrow> loading p' \<noteq> L"
      by simp_all
    show ?thesis
    proof (cases x)
      case (Returned result)
      have "set (take i (in_flight s) @ drop (Suc i) (in_flight s)) \<subseteq> set (in_flight s)"
        using set_take_subset [of i "in_flight s"] set_drop_subset [of "Suc i" "in_flight s"]
        by auto
      with assms(2) have "L \<notin> loading ` set (take i (in_flight s) @ drop (Suc i) (in_flight s))"
        by blast
      with Returned Settle True r c show ?thesis
        by simp
    next
      case (Awaiting p')
      with x have "loading p' \<noteq> L"
        by simp
      moreover have "set ((in_flight s)[i := p']) \<subseteq> insert p' (set (in_flight s))"
        by (rule set_update_subset_insert)
      ultimately have "L \<notin> loading ` set ((in_flight s)[i := p'])"
        using assms(2) by blast
      with Awaiting Settle True r c show ?thesis
        by simp
    qed
  qed
qed

lemma run_keeps:
  assumes "truthy_value (cached s (''content-'' @ L)) = Some d"
    and "L \<notin> loading ` set (in_flight s)"
  shows "truthy_value (cached (run s events) (''content-'' @ L)) = Some d \<and>
         L \<notin> loading ` set (in_flight (run s events))"
  using assms
proof (induction events arbitrary: s)
  case Nil
  then show ?case by simp
next
  case (Cons ev events)
  from step_keeps [OF Cons.prems, of ev] Cons.IH [of "step s ev"]
  show ?case by simp
qed


text \<open>
  Two calls for \<open>"fr"\<close> that overlap both miss the cache and both send the request.
  When the file changes between the two responses, the first call returns the old
  document and caches it, and the second call replaces the entry with the new one.
\<close>

lemma start_served_fr:
  "start served Map.empty ''fr'' =
     (Awaiting (AwaitFetch ''fr'' ''/cv/assets/data/fr.json''), Map.empty,
      [LogLoading ''fr'', LogNoEmbedded ''fr'', Fetch ''/cv/assets/data/fr.json''])"
  by (simp add: start_def served_def truthy_value_def embedded_def baseUrl_def Let_def)

lemma resume_served_fr:
  "resume served cache (AwaitFetch ''fr'' ''/cv/assets/data/fr.json'') =
     (Awaiting (AwaitJson ''fr'' (Response True (Some french))), cache, [LogLoaded ''fr''])"
  by (simp add: served_def)

lemma resume_served_later_fr:
  "resume served_later cache (AwaitFetch ''fr'' ''/cv/assets/data/fr.json'') =
     (Awaiting (AwaitJson ''fr'' (Response True (Some french_revised))), cache,
      [LogLoaded ''fr''])"
  by (simp add: served_later_def)

lemma overlapping_calls:
  "run fresh [Call served ''fr'', Call served ''fr'', Settle served 0, Settle served_later 1] =
     \<lparr>cached = Map.empty,
      in_flight = [AwaitJson ''fr'' (Response True (Some french)),
                   AwaitJson ''fr'' (Response True (Some french_revised))],
      console = [LogLoading ''fr'', LogNoEmbedded ''fr'', Fetch ''/cv/assets/data/fr.json'',
                 LogLoading ''fr'', LogNoEmbedded ''fr'', Fetch ''/cv/assets/data/fr.json'',
                 LogLoaded ''fr'', LogLoaded ''fr''],
      settled = []\<rparr>"
  by (simp add: fresh_def start_served_fr resume_served_fr resume_served_later_fr
      del: resume.simps)

lemma overlapping_calls_replace_the_entry:
  "cached (run fresh [Call served ''fr'', Call served ''fr'', Settle served 0,
                      Settle served_later 1, Settle served 0])
     ''content-fr'' = Some french \<and>
   cached (run fresh [Call served ''fr'', Call served ''fr'', Settle served 0,
                      Settle served_later 1, Settle served 0, Settle served 0])
     ''content-fr'' = Some french_revised \<and>
   settled (run fresh [Call served ''fr'', Call served ''fr'', Settle served 0,
                       Settle served_later 1, Settle served 0, Settle served 0]) =
     [Inr french, Inr french_revised]"
proof -
  let ?overlapping = "run fresh [Call served ''fr'', Call served ''fr'', Settle served 0,
    Settle served_later 1]"
  have one: "run fresh [Call served ''fr'', Call served ''fr'', Settle served 0,
      Settle served_later 1, Settle served 0] = step ?overlapping (Settle served 0)"
    by (simp only: run.simps)
  have two: "run fresh [Call served ''fr'', Call served ''fr'', Settle served 0,
      Settle served_later 1, Settle served 0, Settle served 0] =
      step (step ?overlapping (Settle served 0)) (Settle served 0)"
    by (simp only: run.simps)
  show ?thesis
    unfolding one two overlapping_calls by simp
qed


lemma resume_not_found_es:
  "resume not_found Map.empty (AwaitFetch ''es'' ''/assets/data/es.json'') =
     (Returned (Inr english), [''content-en'' \<mapsto> english],
      [WarnFallingBack ''es'', LogLoading ''en'', LogUsingEmbedded ''en''])"
  by (simp add: not_found_def start_def truthy_value_def embedded_def english_def)

text \<open>
  C9, amended. (1) A call returns a document either without falling back, and then the
  document is in the cache under the key of the requested language, or through the
  fallback, and then the document is in the cache under \<open>content-en\<close> and the entry
  of the requested language is as falsy as before; no other entry changes. (2) The same
  holds part by part when calls overlap: the part that returns a document writes it
  under the key of the language its invocation was called with, the part that falls
  back writes nothing but what the invocation for \<open>'en'\<close> writes under \<open>content-en\<close>,
  and whatever stays in flight after a fallback is an invocation for \<open>'en'\<close>. (3)
  When a truthy document is in the cache under the key of \<open>L\<close> and no invocation for
  \<open>L\<close> is in flight, then after any sequence of calls and completions, overlapping
  in any way and on any pages, the entry is still this document, still no invocation
  for \<open>L\<close> is in flight, and \<open>loadContentData(L)\<close> returns the document at once from
  the cache: its only effect is the log line of the cache hit.
\<close>

theorem cached_document_is_written_and_reused:
  "(loadContentData w cache language = (Inr d, cache', effects) \<longrightarrow>
      (if WarnFallingBack language \<in> set effects
       then language \<noteq> ''en'' \<and> cache' = cache(''content-en'' \<mapsto> d) \<and>
            truthy_value (cache' (''content-'' @ language)) = None
       else cache' = cache((''content-'' @ language) \<mapsto> d))) \<and>
   (start w cache language = (x, cache', effects) \<longrightarrow>
      (case x of
         Returned (Inr d) \<Rightarrow> truthy d \<and> cache' = cache((''content-'' @ language) \<mapsto> d)
       | Returned (Inl err) \<Rightarrow> False
       | Awaiting p' \<Rightarrow> cache' = cache \<and> loading p' = language)) \<and>
   (resume w cache p = (x, cache', effects) \<longrightarrow>
      (case x of
         Returned (Inr d) \<Rightarrow>
           cache' = cache((if WarnFallingBack (loading p) \<in> set effects
                           then ''content-en'' else ''content-'' @ loading p) \<mapsto> d)
       | Returned (Inl err) \<Rightarrow> cache' = cache
       | Awaiting p' \<Rightarrow>
           cache' = cache \<and>
           loading p' = (if WarnFallingBack (loading p) \<in> set effects
                         then ''en'' else loading p))) \<and>
   (truthy_value (cached s (''content-'' @ language)) = Some d \<and>
    language \<notin> loading ` set (in_flight s) \<longrightarrow>
      cached (run s events) (''content-'' @ language) = Some d \<and>
      language \<notin> loading ` set (in_flight (run s events)) \<and>
      start w' (cached (run s events)) language =
        (Returned (Inr d), cached (run s events), [LogUsingCached language]))"
proof (intro conjI impI)
  assume "loadContentData w cache language = (Inr d, cache', effects)"
  then show "if WarnFallingBack language \<in> set effects
       then language \<noteq> ''en'' \<and> cache' = cache(''content-en'' \<mapsto> d) \<and>
            truthy_value (cache' (''content-'' @ language)) = None
       else cache' = cache((''content-'' @ language) \<mapsto> d)"
    by (rule loadContentData_writes)
next
  assume "start w cache language = (x, cache', effects)"
  then show "case x of
         Returned (Inr d) \<Rightarrow> truthy d \<and> cache' = cache((''content-'' @ language) \<mapsto> d)
       | Returned (Inl err) \<Rightarrow> False
       | Awaiting p' \<Rightarrow> cache' = cache \<and> loading p' = language"
    by (rule start_outcome)
next
  assume "resume w cache p = (x, cache', effects)"
  then show "case x of
         Returned (Inr d) \<Rightarrow>
           cache' = cache((if WarnFallingBack (loading p) \<in> set effects
                           then ''content-en'' else ''content-'' @ loading p) \<mapsto> d)
       | Returned (Inl err) \<Rightarrow> cache' = cache
       | Awaiting p' \<Rightarrow>
           cache' = cache \<and>
           loading p' = (if WarnFallingBack (loading p) \<in> set effects
                         then ''en'' else loading p)"
    by (rule resume_outcome)
next
  assume a: "truthy_value (cached s (''content-'' @ language)) = Some d \<and>
    language \<notin> loading ` set (in_flight s)"
  then have kept: "truthy_value (cached (run s events) (''content-'' @ language)) = Some d \<and>
      language \<notin> loading ` set (in_flight (run s events))"
    using run_keeps [of s language d events] by blast
  then show "cached (run s events) (''content-'' @ language) = Some d"
    by (simp add: truthy_value_Some)
  from kept show "language \<notin> loading ` set (in_flight (run s events))"
    by simp
  from kept start_hit [of "cached (run s events)" language d w']
  show "start w' (cached (run s events)) language =
        (Returned (Inr d), cached (run s events), [LogUsingCached language])"
    by simp
qed

theorem cached_document_is_written_and_reused_witness:
  "loadContentData served Map.empty ''fr'' =
     (Inr french, [''content-fr'' \<mapsto> french],
      [LogLoading ''fr'', LogNoEmbedded ''fr'', Fetch ''/cv/assets/data/fr.json'',
       LogLoaded ''fr'']) \<and>
   loadContentData not_found Map.empty ''es'' =
     (Inr english, [''content-en'' \<mapsto> english],
      [LogLoading ''es'', LogNoEmbedded ''es'', Fetch ''/assets/data/es.json'',
       WarnFallingBack ''es'', LogLoading ''en'', LogUsingEmbedded ''en'']) \<and>
   truthy_value ([''content-en'' \<mapsto> english] (''content-'' @ ''es'')) = None \<and>
   start served Map.empty ''fr'' =
     (Awaiting (AwaitFetch ''fr'' ''/cv/assets/data/fr.json''), Map.empty,
      [LogLoading ''fr'', LogNoEmbedded ''fr'', Fetch ''/cv/assets/data/fr.json'']) \<and>
   resume not_found Map.empty (AwaitFetch ''es'' ''/assets/data/es.json'') =
     (Returned (Inr english), [''content-en'' \<mapsto> english],
      [WarnFallingBack ''es'', LogLoading ''en'', LogUsingEmbedded ''en'']) \<and>
   truthy_value (cached waiting_for_es (''content-'' @ ''fr'')) = Some french \<and>
   ''fr'' \<notin> loading ` set (in_flight waiting_for_es) \<and>
   start offline
       (cached (run waiting_for_es
                  [Call served_later ''fr'', Settle not_found 0, Call offline ''de'',
                   Settle offline 0]))
       ''fr'' =
     (Returned (Inr french),
      cached (run waiting_for_es
                [Call served_later ''fr'', Settle not_found 0, Call offline ''de'',
                 Settle offline 0]),
      [LogUsingCached ''fr''])"
proof -
  have a: "truthy_value (cached waiting_for_es (''content-'' @ ''fr'')) = Some french"
    by (simp add: waiting_for_es_def truthy_value_def french_def)
  have b: "''fr'' \<notin> loading ` set (in_flight waiting_for_es)"
    by (simp add: waiting_for_es_def)
  from cached_document_is_written_and_reused [where w = not_found and cache = Map.empty
      and language = "''es''" and d = english and cache' = "[''content-en'' \<mapsto> english]"
      and effects = "[LogLoading ''es'', LogNoEmbedded ''es'', Fetch ''/assets/data/es.json'',
         WarnFallingBack ''es'', LogLoading ''en'', LogUsingEmbedded ''en'']",
      THEN conjunct1] not_found_es
  have c: "truthy_value ([''content-en'' \<mapsto> english] (''content-'' @ ''es'')) = None"
    by simp
  from cached_document_is_written_and_reused [where s = waiting_for_es and language = "''fr''"
      and d = french and w' = offline
      and events = "[Call served_later ''fr'', Settle not_found 0, Call offline ''de'',
         Settle offline 0]",
      THEN conjunct2, THEN conjunct2, THEN conjunct2] a b
  have d: "start offline
       (cached (run waiting_for_es
                  [Call served_later ''fr'', Settle not_found 0, Call offline ''de'',
                   Settle offline 0]))
       ''fr'' =
     (Returned (Inr french),
      cached (run waiting_for_es
                [Call served_later ''fr'', Settle not_found 0, Call offline ''de'',
                 Settle offline 0]),
      [LogUsingCached ''fr''])"
    by blast
  from served_fr not_found_es c start_served_fr resume_not_found_es a b d
  show ?thesis by blast
qed

section \<open>Properties of the default language\<close>

lemma js_split_not_Nil: "js_split sep s \<noteq> []"
  by (induction s) (auto split: list.splits)

lemma first_js_split: "at_index (js_split sep s) 0 = Some (takeWhile (\<lambda>c. c \<noteq> sep) s)"
  by (induction s) (auto simp: at_index_def js_split_not_Nil split: list.splits)

lemma second_js_split:
  "at_index (js_split sep s) (Suc 0) =
     (if sep \<in> set s
      then Some (takeWhile (\<lambda>c. c \<noteq> sep) (drop 1 (dropWhile (\<lambda>c. c \<noteq> sep) s)))
      else None)"
proof (induction s)
  case Nil
  show ?case by (simp add: at_index_def)
next
  case (Cons c cs)
  show ?case
  proof (cases "c = sep")
    case True
    with first_js_split [of sep cs] show ?thesis
      by (simp add: at_index_def js_split_not_Nil split: if_splits)
  next
    case False
    with Cons show ?thesis
      by (cases "js_split sep cs") (auto simp: at_index_def js_split_not_Nil split: if_splits)
  qed
qed

lemma included_Some: "included (Some s) = (if s \<in> supported then Some s else None)"
  by (simp add: included_def supported_def)

lemma included_None: "included None = None"
  by (simp add: included_def)

lemma empty_not_supported: "[] \<notin> supported"
  by (simp add: supported_def)

lemma pathLang_is_first_path_segment:
  "included (at_index (js_split CHR ''/'' pathname) 1) =
     (if first_path_segment pathname \<in> supported
      then Some (first_path_segment pathname) else None)"
proof (cases "CHR ''/'' \<in> set pathname")
  case True
  then show ?thesis
    by (simp add: second_js_split included_Some first_path_segment_def)
next
  case False
  then have "dropWhile (\<lambda>c. c \<noteq> CHR ''/'') pathname = []"
    by (auto simp: dropWhile_eq_Nil_conv)
  then have "first_path_segment pathname = []"
    unfolding first_path_segment_def by (simp only: drop_Nil takeWhile.simps)
  with False empty_not_supported show ?thesis
    by (simp add: second_js_split included_None)
qed

lemma browserLang_is_primary_subtag:
  "included (at_index (js_split CHR ''-'' navigator_language) 0) =
     (if primary_subtag navigator_language \<in> supported
      then Some (primary_subtag navigator_language) else None)"
  by (simp add: first_js_split included_Some primary_subtag_def)

lemma stored_is_stored_item:
  "included (case stored_item of
               None \<Rightarrow> None
             | Some stored \<Rightarrow> if stored \<noteq> [] then Some stored else None) =
     (if stored_item \<in> Some ` supported then stored_item else None)"
proof (cases stored_item)
  case None
  then show ?thesis by (simp add: included_None)
next
  case (Some stored)
  with empty_not_supported show ?thesis
    by (cases "stored = []") (auto simp: included_Some included_None)
qed

lemma language_by_precedence_supported:
  "language_by_precedence pathname stored_item navigator_language \<in> supported"
proof -
  have "''en'' \<in> supported"
    by (simp add: supported_def)
  then show ?thesis
    by (auto simp: language_by_precedence_def)
qed

text \<open>
  C10. \<open>getDefaultLanguage\<close> returns one of \<open>'en'\<close>, \<open>'de'\<close>, \<open>'fr'\<close> whatever the
  path, the stored preference and the browser language are, and the three are consulted
  in this order: the first path segment if it is a supported code, otherwise the stored
  \<open>cv-language\<close> if it is one, otherwise the primary subtag of the browser language if
  it is one, otherwise \<open>'en'\<close>.
\<close>

theorem getDefaultLanguage_supported_by_precedence:
  "getDefaultLanguage pathname stored_item navigator_language \<in> {''en'', ''de'', ''fr''} \<and>
   getDefaultLanguage pathname stored_item navigator_language =
     language_by_precedence pathname stored_item navigator_language"
proof -
  have a: "getDefaultLanguage pathname stored_item navigator_language =
     language_by_precedence pathname stored_item navigator_language"
    unfolding getDefaultLanguage_def pathLang_is_first_path_segment
      browserLang_is_primary_subtag stored_is_stored_item language_by_precedence_def
    by auto
  from language_by_precedence_supported [of pathname stored_item navigator_language] a
  show ?thesis by (simp add: supported_def)
qed

end
